theory Spec2Isabelle
  imports Main "HOL-Library.Sublist" "HOL-Library.Char_ord" "HOL-Library.List_Lexorder"
    "HOL-Library.Multiset"
begin

section \<open>Content transforms (lib/html.go, templateFuncs)\<close>

text \<open>
  Go strings are byte sequences; they are modelled as \<^typ>\<open>string\<close>.
  \<^verbatim>\<open>strings.Split(s, sep)\<close> for a non-empty separator cuts \<open>s\<close> at every
  occurrence of \<open>sep\<close>, found from the left and never overlapping, and
  returns the pieces between the cuts (one piece more than there are cuts).
  \<open>Split_scan sep cur s\<close> walks \<open>s\<close> with the piece under construction
  in \<open>cur\<close>. The generator only calls it with the two-newline separator;
  the empty separator (which Go treats specially) is outside this model.
\<close>

function Split_scan :: "string \<Rightarrow> string \<Rightarrow> string \<Rightarrow> string list" where
  "Split_scan sep cur [] = [cur]"
| "Split_scan sep cur (c # cs) =
     (if sep \<noteq> [] \<and> prefix sep (c # cs)
      then cur # Split_scan sep [] (drop (length sep) (c # cs))
      else Split_scan sep (cur @ [c]) cs)"
  by pat_completeness auto
termination
  by (relation "measure (\<lambda>(sep, cur, s). length s)") (auto simp: prefix_def)

definition Split :: "string \<Rightarrow> string \<Rightarrow> string list" where
  "Split s sep = Split_scan sep [] s"

text \<open>\<^verbatim>\<open>strings.Join(pieces, sep)\<close>, the inverse of the splitting.\<close>

fun Join :: "string list \<Rightarrow> string \<Rightarrow> string" where
  "Join [] sep = []"
| "Join [x] sep = x"
| "Join (x # y # ys) sep = x @ sep @ Join (y # ys) sep"

definition blank_line :: string where
  "blank_line = [CHR 0x0A, CHR 0x0A]"

text \<open>\<^verbatim>\<open>strings.HasPrefix(line, "#")\<close>.\<close>

definition is_heading :: "string \<Rightarrow> bool" where
  "is_heading line = prefix ''#'' line"

text \<open>
  The loop of \<^verbatim>\<open>summary\<close>: the first piece that does not start with
  \<open>#\<close> is returned at once; when the pieces run out, the whole content is.
\<close>

fun summary_loop :: "string list \<Rightarrow> string \<Rightarrow> string" where
  "summary_loop [] content = content"
| "summary_loop (line # lines) content =
     (if \<not> is_heading line then line else summary_loop lines content)"

definition summary :: "string \<Rightarrow> string" where
  "summary content = summary_loop (Split content blank_line) content"

section \<open>Posts and the blog model\<close>

text \<open>
  Modelled from the spec: the \<^verbatim>\<open>Post\<close> type is declared outside
  \<^verbatim>\<open>lib/html.go\<close>; the generator reads only \<^verbatim>\<open>post.Title\<close>.
  The spec gives a post a title, a markdown body, a set of tags (kept here as the
  list that enumerates it) and a publish timestamp.
\<close>

record Post =
  Title :: string
  Body :: string
  PostTags :: "string list"
  Published :: int

text \<open>
  Modelled from the spec: the \<^verbatim>\<open>Blog\<close> type and its two queries are
  declared outside \<^verbatim>\<open>lib/html.go\<close>. The spec: the blog model "owns an
  ordered collection of Posts and exposes two query capabilities: (a) posts sorted by
  date, optionally filtered to a given tag, with a direction flag; (b) the distinct
  set of tags present across all posts, optionally sorted". The call sites pass
  \<^verbatim>\<open>PostsByDate(false, false)\<close>, \<^verbatim>\<open>PostsByDate(false, false, tag)\<close>
  and \<^verbatim>\<open>Tags(false)\<close>. The spec names a single flag of
  \<^verbatim>\<open>PostsByDate\<close>, the direction; it is taken to be the second
  boolean, and the first, of which the spec says nothing, has no effect here. The
  sort is the stable insertion sort of the library, with \<open>False\<close> the
  chronological order.
\<close>

type_synonym Blog = "Post list"

definition PostsByDate :: "Blog \<Rightarrow> bool \<Rightarrow> bool \<Rightarrow> string option \<Rightarrow> Post list" where
  "PostsByDate blog flag reversed tag =
     (let selected = (case tag of None \<Rightarrow> blog
                      | Some t \<Rightarrow> filter (\<lambda>p. t \<in> set (PostTags p)) blog);
          by_date = sort_key Published selected
      in if reversed then rev by_date else by_date)"

definition Tags :: "Blog \<Rightarrow> bool \<Rightarrow> string list" where
  "Tags blog in_order =
     (let ts = remdups (concat (map PostTags blog))
      in if in_order then sort ts else ts)"

section \<open>The file system and the libraries the generator calls\<close>

text \<open>
  A path is the list of its components, so \<^verbatim>\<open>filepath.Join(a, b)\<close> is
  \<open>a @ b\<close>. The file system maps a path to a directory or to a file with its
  bytes. \<open>locked\<close> lists the entries the process is not allowed to unlink: it
  is how a removal can fail. \<open>cb\<close> is the state of whoever supplied the
  progress callback: the callback is a function on that state, it returns nothing to
  the generator, and the model lets it neither touch the files nor stop the process.
  \<open>trace\<close> records, in order, each call of the callback, each attempt to open
  a page file and each execution of a template.
\<close>

type_synonym path = "string list"

datatype node = Dir | File string

datatype event = ProgressCalled path | OpenAttempted path | ExecuteAttempted path

record 'c world =
  fs :: "path \<Rightarrow> node option"
  locked :: "path list"
  cb :: 'c
  trace :: "event list"

definition is_file :: "node option \<Rightarrow> bool" where
  "is_file n = (case n of Some (File c) \<Rightarrow> True | _ \<Rightarrow> False)"

definition content_of :: "node option \<Rightarrow> string" where
  "content_of n = (case n of Some (File c) \<Rightarrow> c | _ \<Rightarrow> [])"

text \<open>
  \<^verbatim>\<open>os.RemoveAll(path)\<close>: "removes path and any children it contains. It
  removes everything it can but returns the first error it encounters. If the path
  does not exist, RemoveAll returns nil." An entry is stuck when it is locked or has
  a locked entry below it.
\<close>

definition stuck :: "'c world \<Rightarrow> path \<Rightarrow> bool" where
  "stuck w q = list_ex (\<lambda>l. prefix q l \<and> fs w l \<noteq> None) (locked w)"

definition RemoveAll :: "path \<Rightarrow> 'c world \<Rightarrow> string option \<times> 'c world" where
  "RemoveAll p w =
     (if stuck w p then Some ''permission denied'' else None,
      w\<lparr>fs := (\<lambda>q. if prefix p q \<and> \<not> stuck w q then None else fs w q)\<rparr>)"

text \<open>
  \<^verbatim>\<open>os.MkdirAll(path, perm)\<close> creates the directory with every missing
  parent, and fails when one of them is a file.
\<close>

definition MkdirAll :: "path \<Rightarrow> 'c world \<Rightarrow> string option \<times> 'c world" where
  "MkdirAll p w =
     (if list_ex (\<lambda>q. is_file (fs w q)) (prefixes p) then (Some ''not a directory'', w)
      else (None, w\<lparr>fs := (\<lambda>q. if prefix q p then Some Dir else fs w q)\<rparr>))"

text \<open>\<^verbatim>\<open>os.Mkdir(path, perm)\<close>: the parent must exist, the entry must not.\<close>

definition Mkdir :: "path \<Rightarrow> 'c world \<Rightarrow> string option \<times> 'c world" where
  "Mkdir p w =
     (if fs w p \<noteq> None then (Some ''file exists'', w)
      else if fs w (butlast p) \<noteq> Some Dir then (Some ''no such file or directory'', w)
      else (None, w\<lparr>fs := (fs w)(p \<mapsto> Dir)\<rparr>))"

text \<open>
  \<^verbatim>\<open>shutil.CopyTree(src, dst, options)\<close> with an \<^verbatim>\<open>Ignore\<close> function
  that returns the same names for every directory: the source must be a directory,
  the destination must not exist; the destination is created with
  \<^verbatim>\<open>os.MkdirAll\<close> and every entry of the source tree is copied below it,
  but for the entries with an ignored name and what lies below them. The model
  copies the tree as it stands when the call begins, which is what the library does
  for a destination outside the source tree.
\<close>

definition CopyTree :: "path \<Rightarrow> path \<Rightarrow> string list \<Rightarrow> 'c world \<Rightarrow> string option \<times> 'c world" where
  "CopyTree src dst ignore w =
     (case fs w src of
        None \<Rightarrow> (Some ''no such file or directory'', w)
      | Some (File c) \<Rightarrow> (Some ''not a directory'', w)
      | Some Dir \<Rightarrow>
          if fs w dst \<noteq> None then (Some ''already exists'', w)
          else (case MkdirAll dst w of
                  (Some err, w1) \<Rightarrow> (Some err, w1)
                | (None, w1) \<Rightarrow>
                    (None, w1\<lparr>fs := (\<lambda>q.
                       if strict_prefix dst q
                          \<and> list_all (\<lambda>n. n \<notin> set ignore) (drop (length dst) q)
                       then fs w (src @ drop (length dst) q)
                       else fs w1 q)\<rparr>)))"

text \<open>
  \<^verbatim>\<open>os.OpenFile(name, os.O_CREATE|os.O_WRONLY, 0600)\<close>: a directory cannot be
  opened for writing; an existing file is opened as it is, with its bytes (the flags
  hold no \<^verbatim>\<open>O_TRUNC\<close>); a missing file is created empty if its parent is a
  directory. The handle is the path: the generator writes to it once and closes it.
\<close>

definition OpenFile :: "path \<Rightarrow> 'c world \<Rightarrow> string option \<times> 'c world" where
  "OpenFile p w =
     (let w1 = w\<lparr>trace := trace w @ [OpenAttempted p]\<rparr> in
      case fs w p of
        Some Dir \<Rightarrow> (Some ''is a directory'', w1)
      | Some (File c) \<Rightarrow> (None, w1)
      | None \<Rightarrow>
          if fs w (butlast p) = Some Dir then (None, w1\<lparr>fs := (fs w)(p \<mapsto> File [])\<rparr>)
          else (Some ''no such file or directory'', w1))"

text \<open>
  Writing \<open>new\<close> from offset 0 into a file that holds \<open>old\<close>: the bytes of
  \<open>old\<close> beyond the length of \<open>new\<close> stay.
\<close>

definition overwrite :: "string \<Rightarrow> string \<Rightarrow> string" where
  "overwrite old new = new @ drop (length new) old"

text \<open>
  A parsed template is the function \<^verbatim>\<open>template.Execute\<close> computes: from the
  data to the bytes it writes and the error it returns, if any (the bytes written
  before an error stay in the file). The data is one of the three values the
  generator passes.
\<close>

datatype page_data = IndexData "Post list" | PostData Post | TagData string "Post list"

type_synonym template = "page_data \<Rightarrow> string \<times> string option"

definition Execute :: "template \<Rightarrow> path \<Rightarrow> page_data \<Rightarrow> 'c world \<Rightarrow> string option \<times> 'c world" where
  "Execute tmpl p data w =
     (let (written, err) = tmpl data in
      (err, w\<lparr>fs := (fs w)(p \<mapsto> File (overwrite (content_of (fs w p)) written)),
              trace := trace w @ [ExecuteAttempted p]\<rparr>))"

definition ReadFile :: "path \<Rightarrow> 'c world \<Rightarrow> string + string" where
  "ReadFile p w =
     (case fs w p of
        None \<Rightarrow> Inl ''no such file or directory''
      | Some Dir \<Rightarrow> Inl ''is a directory''
      | Some (File c) \<Rightarrow> Inr c)"

section \<open>The generator (lib/html.go)\<close>

record 'c StaticBlogGenerator =
  templatesDir :: path
  outputDir :: path
  progressFunc :: "path \<Rightarrow> 'c \<Rightarrow> 'c"
  indexTemplate :: template
  postTemplate :: template
  tagTemplate :: template
  posts :: "Post list"
  postsByTag :: "string \<Rightarrow> Post list option"

text \<open>The names the \<^verbatim>\<open>Ignore\<close> function of \<^verbatim>\<open>prepareOutputDir\<close> returns.\<close>

definition ignored_names :: "string list" where
  "ignored_names = [''layout.tmpl'', ''index.tmpl'', ''post.tmpl'', ''tag.tmpl'']"

text \<open>The error \<^verbatim>\<open>os.RemoveAll\<close> returns is dropped, as in the source.\<close>

definition prepareOutputDir :: "'c StaticBlogGenerator \<Rightarrow> 'c world \<Rightarrow> string option \<times> 'c world" where
  "prepareOutputDir g w =
     (let (unused, w1) = RemoveAll (outputDir g) w in
      case CopyTree (templatesDir g) (outputDir g) ignored_names w1 of
        (Some err, w2) \<Rightarrow> (Some err, w2)
      | (None, w2) \<Rightarrow> Mkdir (outputDir g @ [''tags'']) w2)"

definition generatePage ::
  "'c StaticBlogGenerator \<Rightarrow> template \<Rightarrow> path \<Rightarrow> page_data \<Rightarrow> 'c world \<Rightarrow> string option \<times> 'c world" where
  "generatePage g tmpl path data w =
     (let w1 = w\<lparr>cb := progressFunc g path (cb w), trace := trace w @ [ProgressCalled path]\<rparr> in
      case OpenFile (outputDir g @ path) w1 of
        (Some err, w2) \<Rightarrow> (Some err, w2)
      | (None, w2) \<Rightarrow> Execute tmpl (outputDir g @ path) data w2)"

definition index_path :: path where
  "index_path = [''index.html'']"

definition generateIndex :: "'c StaticBlogGenerator \<Rightarrow> 'c world \<Rightarrow> string option \<times> 'c world" where
  "generateIndex g w = generatePage g (indexTemplate g) index_path (IndexData (posts g)) w"

text \<open>
  \<^verbatim>\<open>slug.Make\<close> is a function of an external library; the generator takes it
  as the parameter \<open>slug\<close>. Its results hold letters, digits, hyphens and
  underscores only, so a slug with \<^verbatim>\<open>.html\<close> appended is one path component.
\<close>

definition post_path :: "(string \<Rightarrow> string) \<Rightarrow> Post \<Rightarrow> path" where
  "post_path slug post = [slug (Title post) @ ''.html'']"

definition tag_path :: "(string \<Rightarrow> string) \<Rightarrow> string \<Rightarrow> path" where
  "tag_path slug tag = [''tags'', slug tag @ ''.html'']"

fun generatePosts_loop ::
  "(string \<Rightarrow> string) \<Rightarrow> 'c StaticBlogGenerator \<Rightarrow> Post list \<Rightarrow> 'c world \<Rightarrow> string option \<times> 'c world" where
  "generatePosts_loop slug g [] w = (None, w)"
| "generatePosts_loop slug g (post # rest) w =
     (case generatePage g (postTemplate g) (post_path slug post) (PostData post) w of
        (Some err, w1) \<Rightarrow> (Some err, w1)
      | (None, w1) \<Rightarrow> generatePosts_loop slug g rest w1)"

definition generatePosts ::
  "(string \<Rightarrow> string) \<Rightarrow> 'c StaticBlogGenerator \<Rightarrow> 'c world \<Rightarrow> string option \<times> 'c world" where
  "generatePosts slug g w = generatePosts_loop slug g (posts g) w"

text \<open>
  \<^verbatim>\<open>for tag, posts := range g.postsByTag\<close>: Go leaves the order in which a
  map is ranged over unspecified, and it may differ from one loop to the next. The
  order is the parameter \<open>order\<close>, a list of the keys of the map; a tag that
  is not a key has no entry to visit.
\<close>

fun generateTags_loop ::
  "(string \<Rightarrow> string) \<Rightarrow> 'c StaticBlogGenerator \<Rightarrow> string list \<Rightarrow> 'c world \<Rightarrow> string option \<times> 'c world" where
  "generateTags_loop slug g [] w = (None, w)"
| "generateTags_loop slug g (tag # rest) w =
     (case postsByTag g tag of
        None \<Rightarrow> generateTags_loop slug g rest w
      | Some tagged \<Rightarrow>
          (case generatePage g (tagTemplate g) (tag_path slug tag) (TagData tag tagged) w of
             (Some err, w1) \<Rightarrow> (Some err, w1)
           | (None, w1) \<Rightarrow> generateTags_loop slug g rest w1))"

definition range_order :: "'c StaticBlogGenerator \<Rightarrow> string list \<Rightarrow> bool" where
  "range_order g order = (distinct order \<and> set order = dom (postsByTag g))"

definition generateTags ::
  "(string \<Rightarrow> string) \<Rightarrow> 'c StaticBlogGenerator \<Rightarrow> string list \<Rightarrow> 'c world \<Rightarrow> string option \<times> 'c world" where
  "generateTags slug g order w = generateTags_loop slug g order w"

definition Generate ::
  "(string \<Rightarrow> string) \<Rightarrow> 'c StaticBlogGenerator \<Rightarrow> string list \<Rightarrow> 'c world \<Rightarrow> string option \<times> 'c world" where
  "Generate slug g order w =
     (case prepareOutputDir g w of
        (Some err, w1) \<Rightarrow> (Some (''failed to prepare output directory: '' @ err), w1)
      | (None, w1) \<Rightarrow>
     (case generateIndex g w1 of
        (Some err, w2) \<Rightarrow> (Some (''failed to generate index: '' @ err), w2)
      | (None, w2) \<Rightarrow>
     (case generateTags slug g order w2 of
        (Some err, w3) \<Rightarrow> (Some (''failed to generate tags: '' @ err), w3)
      | (None, w3) \<Rightarrow>
     (case generatePosts slug g w3 of
        (Some err, w4) \<Rightarrow> (Some (''failed to generate posts: '' @ err), w4)
      | (None, w4) \<Rightarrow> (None, w4)))))"

text \<open>
  \<^verbatim>\<open>template.New("layout.tmpl").Funcs(templateFuncs).ParseFiles(layout, page)\<close>
  reads the two files and parses them; the parser of the external template library
  is the parameter \<open>parse\<close>, from the names and texts of the files to a template
  or an error.
\<close>

definition createTemplate ::
  "((string \<times> string) list \<Rightarrow> string + template) \<Rightarrow> path \<Rightarrow> string \<Rightarrow> 'c world \<Rightarrow> string + template" where
  "createTemplate parse dir name w =
     (case ReadFile (dir @ [''layout.tmpl'']) w of
        Inl err \<Rightarrow> Inl err
      | Inr layout \<Rightarrow>
          (case ReadFile (dir @ [name]) w of
             Inl err \<Rightarrow> Inl err
           | Inr page \<Rightarrow> parse [(''layout.tmpl'', layout), (name, page)]))"

definition NewStaticBlogGenerator ::
  "((string \<times> string) list \<Rightarrow> string + template) \<Rightarrow> Blog \<Rightarrow> path \<Rightarrow> path \<Rightarrow> (path \<Rightarrow> 'c \<Rightarrow> 'c) \<Rightarrow> 'c world
     \<Rightarrow> string + 'c StaticBlogGenerator" where
  "NewStaticBlogGenerator parse blog tdir odir pf w =
     (if fs w tdir = None then Inl (''templates directory not found: '' @ Join tdir ''/'')
      else
     (case createTemplate parse tdir ''index.tmpl'' w of
        Inl err \<Rightarrow> Inl err
      | Inr indexT \<Rightarrow>
     (case createTemplate parse tdir ''post.tmpl'' w of
        Inl err \<Rightarrow> Inl err
      | Inr postT \<Rightarrow>
     (case createTemplate parse tdir ''tag.tmpl'' w of
        Inl err \<Rightarrow> Inl err
      | Inr tagT \<Rightarrow>
          Inr \<lparr>templatesDir = tdir, outputDir = odir, progressFunc = pf,
               indexTemplate = indexT, postTemplate = postT, tagTemplate = tagT,
               posts = PostsByDate blog False False None,
               postsByTag = fold (\<lambda>tag m. m(tag \<mapsto> PostsByDate blog False False (Some tag)))
                                 (Tags blog False) Map.empty\<rparr>))))"

section \<open>Notions used in the statements\<close>

text \<open>
  What \<^verbatim>\<open>os.OpenFile\<close> with the generator's flags needs of the file system,
  the error it returns otherwise, and what one page write leaves in it.
\<close>

definition can_open :: "(path \<Rightarrow> node option) \<Rightarrow> path \<Rightarrow> bool" where
  "can_open f q = (case f q of Some Dir \<Rightarrow> False | Some (File c) \<Rightarrow> True | None \<Rightarrow> f (butlast q) = Some Dir)"

definition open_error :: "(path \<Rightarrow> node option) \<Rightarrow> path \<Rightarrow> string" where
  "open_error f q = (if f q = Some Dir then ''is a directory'' else ''no such file or directory'')"

definition write_file :: "(path \<Rightarrow> node option) \<Rightarrow> path \<Rightarrow> string \<Rightarrow> (path \<Rightarrow> node option)" where
  "write_file f q bytes = f(q \<mapsto> File (overwrite (content_of (f q)) bytes))"

text \<open>
  The three page phases have one shape: a list of pages, each a template, a relative
  path and a data value, generated in order until one fails. \<open>generatePages\<close>
  is that shape; the lemmas below show that each phase of the source is an instance.
\<close>

type_synonym job = "template \<times> path \<times> page_data"

fun generatePages :: "'c StaticBlogGenerator \<Rightarrow> job list \<Rightarrow> 'c world \<Rightarrow> string option \<times> 'c world" where
  "generatePages g [] w = (None, w)"
| "generatePages g ((tmpl, path, data) # rest) w =
     (case generatePage g tmpl path data w of
        (Some err, w1) \<Rightarrow> (Some err, w1)
      | (None, w1) \<Rightarrow> generatePages g rest w1)"

definition job_path :: "job \<Rightarrow> path" where
  "job_path j = fst (snd j)"

definition index_job :: "'c StaticBlogGenerator \<Rightarrow> job" where
  "index_job g = (indexTemplate g, index_path, IndexData (posts g))"

definition post_job :: "(string \<Rightarrow> string) \<Rightarrow> 'c StaticBlogGenerator \<Rightarrow> Post \<Rightarrow> job" where
  "post_job slug g post = (postTemplate g, post_path slug post, PostData post)"

definition tag_jobs :: "(string \<Rightarrow> string) \<Rightarrow> 'c StaticBlogGenerator \<Rightarrow> string list \<Rightarrow> job list" where
  "tag_jobs slug g order =
     List.map_filter (\<lambda>tag. map_option (\<lambda>tagged. (tagTemplate g, tag_path slug tag, TagData tag tagged))
                                (postsByTag g tag)) order"

definition all_jobs :: "(string \<Rightarrow> string) \<Rightarrow> 'c StaticBlogGenerator \<Rightarrow> string list \<Rightarrow> job list" where
  "all_jobs slug g order = index_job g # tag_jobs slug g order @ map (post_job slug g) (posts g)"

text \<open>The relative paths of all the pages of a run, in the order of generation.\<close>

definition pages_of :: "(string \<Rightarrow> string) \<Rightarrow> 'c StaticBlogGenerator \<Rightarrow> string list \<Rightarrow> path list" where
  "pages_of slug g order =
     index_path # map (tag_path slug) (filter (\<lambda>tag. postsByTag g tag \<noteq> None) order)
       @ map (post_path slug) (posts g)"

text \<open>The events of a page whose file was opened.\<close>

definition full_block :: "path \<Rightarrow> path \<Rightarrow> event list" where
  "full_block out p = [ProgressCalled p, OpenAttempted (out @ p), ExecuteAttempted (out @ p)]"

text \<open>Two worlds that differ at most in the state of the callback's owner.\<close>

definition same_files :: "'c world \<Rightarrow> 'c world \<Rightarrow> bool" where
  "same_files w1 w2 = (fs w1 = fs w2 \<and> locked w1 = locked w2 \<and> trace w1 = trace w2)"

section \<open>A small site, for the concrete instances\<close>

text \<open>
  \<open>demo_slug\<close> agrees with \<^verbatim>\<open>slug.Make\<close> on the lower-case titles and
  tags used below: a space becomes a hyphen. \<open>demo_template\<close> renders the
  titles of an index, the body of a post and the name of a tag;
  \<open>failing_template\<close> writes a few bytes and then fails. \<open>demo_parse\<close>
  rejects a file that consists of an unclosed action.
\<close>

definition demo_slug :: "string \<Rightarrow> string" where
  "demo_slug s = map (\<lambda>c. if c = CHR '' '' then CHR ''-'' else c) s"

definition demo_template :: template where
  "demo_template d =
     (case d of
        IndexData ps \<Rightarrow> (concat (map Title ps), None)
      | PostData p \<Rightarrow> (Body p, None)
      | TagData t ps \<Rightarrow> (t, None))"

definition failing_template :: template where
  "failing_template d = (''<html>'', Some ''template: execution failed'')"

definition demo_parse :: "(string \<times> string) list \<Rightarrow> string + template" where
  "demo_parse files =
     (if list_ex (\<lambda>file. snd file = ''{{'') files then Inl ''template: unclosed action''
      else Inr demo_template)"

definition demo_fs :: "path \<Rightarrow> node option" where
  "demo_fs =
     [[] \<mapsto> Dir, [''tpl''] \<mapsto> Dir,
      [''tpl'', ''layout.tmpl''] \<mapsto> File ''<layout>'',
      [''tpl'', ''index.tmpl''] \<mapsto> File ''<index>'',
      [''tpl'', ''post.tmpl''] \<mapsto> File ''<post>'',
      [''tpl'', ''tag.tmpl''] \<mapsto> File ''<tag>'',
      [''tpl'', ''style.css''] \<mapsto> File ''body {}'']"

text \<open>The callback of the examples records the paths it is called with.\<close>

definition demo_site :: "path list world" where
  "demo_site = \<lparr>fs = demo_fs, locked = [], cb = [], trace = []\<rparr>"

definition record_path :: "path \<Rightarrow> path list \<Rightarrow> path list" where
  "record_path p seen = seen @ [p]"

definition first_post :: Post where
  "first_post = \<lparr>Title = ''hello world'', Body = ''A longer body'', PostTags = [''go''], Published = 1\<rparr>"

definition second_post :: Post where
  "second_post = \<lparr>Title = ''hello-world'', Body = ''Short'', PostTags = [''go'', ''web''], Published = 2\<rparr>"

definition demo_generator :: "path list StaticBlogGenerator" where
  "demo_generator =
     \<lparr>templatesDir = [''tpl''], outputDir = [''out''], progressFunc = record_path,
      indexTemplate = demo_template, postTemplate = demo_template, tagTemplate = demo_template,
      posts = [first_post, second_post],
      postsByTag = [''go'' \<mapsto> [first_post, second_post], ''web'' \<mapsto> [second_post]]\<rparr>"

text \<open>A site without a templates directory, and an order of the two tags.\<close>

definition bare_site :: "path list world" where
  "bare_site = demo_site\<lparr>fs := [[] \<mapsto> Dir]\<rparr>"

definition demo_order :: "string list" where
  "demo_order = [''go'', ''web'']"


text \<open>
  A blog of the two posts, newest first; a site with earlier output that holds an
  entry the process may not remove; a site whose tag template does not parse; a site
  without the post template. \<open>template_paths\<close> are the paths the constructor
  looks at.
\<close>

definition demo_blog :: Blog where
  "demo_blog = [second_post, first_post]"

definition stale_site :: "path list world" where
  "stale_site = demo_site\<lparr>fs := (fs demo_site)([''out''] \<mapsto> Dir, [''out'', ''old.html''] \<mapsto> File ''old page''),
                          locked := [[''out'', ''old.html'']]\<rparr>"

definition broken_site :: "path list world" where
  "broken_site = demo_site\<lparr>fs := (fs demo_site)([''tpl'', ''tag.tmpl''] \<mapsto> File ''{{'')\<rparr>"

definition partial_site :: "path list world" where
  "partial_site = demo_site\<lparr>fs := (fs demo_site)([''tpl'', ''post.tmpl''] := None)\<rparr>"

definition template_paths :: "path \<Rightarrow> path list" where
  "template_paths tdir =
     [tdir, tdir @ [''layout.tmpl''], tdir @ [''index.tmpl''], tdir @ [''post.tmpl''], tdir @ [''tag.tmpl'']]"

text \<open>
  The bytes a page writes, the error its template returns, and the file system after
  a list of pages has been written in order.
\<close>

definition job_bytes :: "job \<Rightarrow> string" where
  "job_bytes j = fst (fst j (snd (snd j)))"

definition job_error :: "job \<Rightarrow> string option" where
  "job_error j = snd (fst j (snd (snd j)))"

definition write_jobs :: "path \<Rightarrow> job list \<Rightarrow> (path \<Rightarrow> node option) \<Rightarrow> (path \<Rightarrow> node option)" where
  "write_jobs out js f = fold (\<lambda>j f. write_file f (out @ job_path j) (job_bytes j)) js f"



text \<open>
  A post with two tags that have the same slug, and the generator the constructor
  returns for the blog of this one post.
\<close>

definition tagged_post :: Post where
  "tagged_post = \<lparr>Title = ''notes'', Body = ''Some notes'', PostTags = [''go lang'', ''go-lang''], Published = 3\<rparr>"

definition collide_generator :: "path list StaticBlogGenerator" where
  "collide_generator =
     demo_generator\<lparr>posts := [tagged_post],
                    postsByTag := [''go lang'' \<mapsto> [tagged_post], ''go-lang'' \<mapsto> [tagged_post]]\<rparr>"

section \<open>Theorems\<close>

subsection \<open>Splitting into paragraphs\<close>

lemma Split_scan_nonempty: "Split_scan sep cur s \<noteq> []"
  by (induction sep cur s rule: Split_scan.induct) auto

lemma Join_Cons: "ps \<noteq> [] \<Longrightarrow> Join (p # ps) sep = p @ sep @ Join ps sep"
  by (cases ps) auto

lemma Split_scan_join:
  "sep \<noteq> [] \<Longrightarrow> Join (Split_scan sep cur s) sep = cur @ s"
proof (induction sep cur s rule: Split_scan.induct)
  case (1 sep cur)
  then show ?case by simp
next
  case (2 sep cur c cs)
  show ?case
  proof (cases "prefix sep (c # cs)")
    case True
    let ?r = "drop (length sep) (c # cs)"
    have r: "sep @ ?r = c # cs"
      using True by (auto simp: prefix_def)
    have step: "Split_scan sep cur (c # cs) = cur # Split_scan sep [] ?r"
      using True 2(3) by simp
    have "Join (Split_scan sep [] ?r) sep = ?r"
      using True 2 by simp
    then have "Join (Split_scan sep cur (c # cs)) sep = cur @ sep @ ?r"
      unfolding step by (simp add: Join_Cons Split_scan_nonempty)
    then show ?thesis
      by (simp only: r)
  next
    case False
    with 2 show ?thesis by simp
  qed
qed

lemma sublist_as_prefix:
  "sublist sep p \<longleftrightarrow> (\<exists>i\<le>length p. prefix sep (drop i p))"
proof
  assume "sublist sep p"
  then obtain a b where "p = a @ sep @ b"
    by (auto simp: sublist_def)
  then show "\<exists>i\<le>length p. prefix sep (drop i p)"
    by (intro exI [of _ "length a"]) simp
next
  assume "\<exists>i\<le>length p. prefix sep (drop i p)"
  then obtain i b where "drop i p = sep @ b"
    by (auto simp: prefix_def)
  then have "p = take i p @ sep @ b"
    by (metis append_take_drop_id)
  then show "sublist sep p"
    unfolding sublist_def by blast
qed

lemma Split_scan_pieces:
  assumes "sep \<noteq> []" and "\<forall>i<length cur. \<not> prefix sep (drop i (cur @ s))"
  shows "\<forall>p\<in>set (Split_scan sep cur s). \<not> sublist sep p"
  using assms
proof (induction sep cur s rule: Split_scan.induct)
  case (1 sep cur)
  have "\<not> sublist sep cur"
  proof
    assume "sublist sep cur"
    then obtain i where i: "i \<le> length cur" "prefix sep (drop i cur)"
      by (auto simp: sublist_as_prefix)
    with 1(1) have "i < length cur"
      by (cases "i = length cur") auto
    with 1(2) i show False by simp
  qed
  then show ?case by simp
next
  case (2 sep cur c cs)
  show ?case
  proof (cases "prefix sep (c # cs)")
    case True
    have "\<not> sublist sep cur"
    proof
      assume "sublist sep cur"
      then obtain i where i: "i \<le> length cur" "prefix sep (drop i cur)"
        by (auto simp: sublist_as_prefix)
      with 2(3) have "i < length cur"
        by (cases "i = length cur") auto
      moreover from i have "prefix sep (drop i (cur @ c # cs))"
        by (simp add: prefix_prefix)
      ultimately show False
        using 2(4) by blast
    qed
    moreover have "\<forall>p\<in>set (Split_scan sep [] (drop (length sep) (c # cs))). \<not> sublist sep p"
      using True 2 by simp
    ultimately show ?thesis
      using True 2(3) by simp
  next
    case False
    have "\<forall>i<length (cur @ [c]). \<not> prefix sep (drop i ((cur @ [c]) @ cs))"
    proof (intro allI impI)
      fix i
      assume "i < length (cur @ [c])"
      then consider "i < length cur" | "i = length cur"
        by fastforce
      then show "\<not> prefix sep (drop i ((cur @ [c]) @ cs))"
      proof cases
        case 1
        with 2(4) show ?thesis by simp
      next
        case 2
        with False show ?thesis by simp
      qed
    qed
    with False 2 show ?thesis by simp
  qed
qed

lemma Split_pieces_hold_no_separator:
  "sep \<noteq> [] \<Longrightarrow> \<forall>p\<in>set (Split s sep). \<not> sublist sep p"
  unfolding Split_def by (rule Split_scan_pieces) simp_all

lemma summary_loop_all_headings:
  "list_all is_heading ls \<Longrightarrow> summary_loop ls content = content"
  by (induction ls) auto

lemma summary_loop_first:
  "list_all is_heading hs \<Longrightarrow> \<not> is_heading p \<Longrightarrow> summary_loop (hs @ p # rest) content = p"
  by (induction hs) auto

text \<open>
  Claim C4. \<open>summary\<close> cuts its input at the blank lines (joining the
  paragraphs with blank lines gives the input back, and no paragraph holds a blank
  line) and returns the first paragraph
  that does not start with the heading marker \<open>#\<close>; when every paragraph
  starts with it, the input comes back unchanged. The two examples of the
  specification are evaluated.
\<close>

theorem summary_first_non_heading:
  "Join (Split content blank_line) blank_line = content \<and>
   (\<forall>p\<in>set (Split content blank_line). \<not> sublist blank_line p) \<and>
   (list_all is_heading (Split content blank_line) \<longrightarrow> summary content = content) \<and>
   (\<forall>hs p rest. Split content blank_line = hs @ p # rest \<and> list_all is_heading hs \<and> \<not> is_heading p
       \<longrightarrow> summary content = p) \<and>
   summary (''# Heading'' @ blank_line @ ''First real paragraph.'' @ blank_line @ ''Second.'')
     = ''First real paragraph.'' \<and>
   summary (''# Only'' @ blank_line @ ''## Headings'') = ''# Only'' @ blank_line @ ''## Headings''"
proof -
  have join: "Join (Split content blank_line) blank_line = content"
    by (simp add: Split_def Split_scan_join blank_line_def)
  have pieces: "\<forall>p\<in>set (Split content blank_line). \<not> sublist blank_line p"
    by (rule Split_pieces_hold_no_separator) (simp add: blank_line_def)
  have all: "list_all is_heading (Split content blank_line) \<longrightarrow> summary content = content"
    by (simp add: summary_def summary_loop_all_headings)
  have first: "\<forall>hs p rest. Split content blank_line = hs @ p # rest \<and> list_all is_heading hs \<and> \<not> is_heading p
       \<longrightarrow> summary content = p"
    by (simp add: summary_def summary_loop_first)
  have ex1: "summary (''# Heading'' @ blank_line @ ''First real paragraph.'' @ blank_line @ ''Second.'')
     = ''First real paragraph.''"
    by (simp add: summary_def Split_def blank_line_def is_heading_def)
  have ex2: "summary (''# Only'' @ blank_line @ ''## Headings'') = ''# Only'' @ blank_line @ ''## Headings''"
    by (simp add: summary_def Split_def blank_line_def is_heading_def)
  from join pieces all first ex1 ex2 show ?thesis by blast
qed

theorem summary_first_non_heading_witness:
  "Split (''# Title'' @ blank_line @ ''Body text'' @ blank_line @ ''More'') blank_line
      = [''# Title''] @ ''Body text'' # [''More''] \<and>
   list_all is_heading [''# Title''] \<and> \<not> is_heading ''Body text'' \<and>
   summary (''# Title'' @ blank_line @ ''Body text'' @ blank_line @ ''More'') = ''Body text'' \<and>
   list_all is_heading (Split ''#a'' blank_line) \<and> summary ''#a'' = ''#a''"
proof -
  have s: "Split (''# Title'' @ blank_line @ ''Body text'' @ blank_line @ ''More'') blank_line
      = [''# Title''] @ ''Body text'' # [''More'']"
    by (simp add: Split_def blank_line_def)
  have h: "list_all is_heading [''# Title'']" "\<not> is_heading ''Body text''"
    by (simp_all add: is_heading_def)
  have a: "list_all is_heading (Split ''#a'' blank_line)"
    by (simp add: Split_def blank_line_def is_heading_def)
  from summary_first_non_heading [of "''# Title'' @ blank_line @ ''Body text'' @ blank_line @ ''More''"] s h
  have 1: "summary (''# Title'' @ blank_line @ ''Body text'' @ blank_line @ ''More'') = ''Body text''"
    by blast
  from summary_first_non_heading [of "''#a''"] a
  have 2: "summary ''#a'' = ''#a''"
    by blast
  from s h a 1 2 show ?thesis by blast
qed

subsection \<open>Pages, phases and what the callback cannot change\<close>

lemma generatePage_not_opened:
  assumes "\<not> can_open (fs w) (outputDir g @ p)"
  shows "generatePage g t p d w =
           (Some (open_error (fs w) (outputDir g @ p)),
            w\<lparr>cb := progressFunc g p (cb w),
              trace := trace w @ [ProgressCalled p, OpenAttempted (outputDir g @ p)]\<rparr>)"
  using assms
  by (auto simp: generatePage_def OpenFile_def can_open_def open_error_def Let_def
           split: option.splits node.splits)

lemma generatePage_opened:
  assumes "can_open (fs w) (outputDir g @ p)"
  shows "generatePage g t p d w =
           (snd (t d), w\<lparr>fs := write_file (fs w) (outputDir g @ p) (fst (t d)),
                         cb := progressFunc g p (cb w),
                         trace := trace w @ full_block (outputDir g) p\<rparr>)"
  using assms
  by (auto simp: generatePage_def OpenFile_def Execute_def can_open_def write_file_def full_block_def
        content_of_def Let_def split: option.splits node.splits prod.splits)

lemma generatePage_success:
  assumes "generatePage g t p d w = (None, w')"
  shows "can_open (fs w) (outputDir g @ p) \<and> snd (t d) = None \<and>
         w' = w\<lparr>fs := write_file (fs w) (outputDir g @ p) (fst (t d)),
                 cb := progressFunc g p (cb w),
                 trace := trace w @ full_block (outputDir g) p\<rparr>"
proof (cases "can_open (fs w) (outputDir g @ p)")
  case True
  with assms generatePage_opened [OF True, of t d] show ?thesis by simp
next
  case False
  with assms generatePage_not_opened [OF False, of t d] show ?thesis by auto
qed

lemma generatePages_append:
  "generatePages g (js @ ks) w =
     (case generatePages g js w of
        (Some err, w1) \<Rightarrow> (Some err, w1)
      | (None, w1) \<Rightarrow> generatePages g ks w1)"
  by (induction js arbitrary: w) (auto split: prod.splits option.splits)

lemma generateIndex_pages: "generateIndex g w = generatePages g [index_job g] w"
  by (auto simp: generateIndex_def index_job_def split: prod.splits option.splits)

lemma generatePosts_loop_pages:
  "generatePosts_loop slug g ps w = generatePages g (map (post_job slug g) ps) w"
  by (induction ps arbitrary: w) (auto simp: post_job_def split: prod.splits option.splits)

lemma generateTags_loop_pages:
  "generateTags_loop slug g order w = generatePages g (tag_jobs slug g order) w"
  by (induction order arbitrary: w)
     (auto simp: tag_jobs_def List.map_filter_simps split: prod.splits option.splits)

lemma job_path_simp [simp]: "job_path (t, p, d) = p"
  by (simp add: job_path_def)

lemma tag_jobs_paths:
  "map job_path (tag_jobs slug g order)
     = map (tag_path slug) (filter (\<lambda>tag. postsByTag g tag \<noteq> None) order)"
  by (induction order) (auto simp: tag_jobs_def List.map_filter_simps split: option.splits)

lemma all_jobs_paths: "map job_path (all_jobs slug g order) = pages_of slug g order"
  by (simp add: all_jobs_def pages_of_def tag_jobs_paths index_job_def post_job_def comp_def)

lemma generatePages_events:
  "generatePages g js w = (err, w') \<Longrightarrow>
   \<exists>attempted. prefix attempted (map job_path js) \<and> (err = None \<longrightarrow> attempted = map job_path js) \<and>
      locked w' = locked w \<and>
      cb w' = fold (progressFunc g) attempted (cb w) \<and>
      (trace w' = trace w @ concat (map (full_block (outputDir g)) attempted) \<or>
       (err \<noteq> None \<and> attempted \<noteq> [] \<and>
        trace w' = trace w @ concat (map (full_block (outputDir g)) (butlast attempted))
                     @ [ProgressCalled (last attempted), OpenAttempted (outputDir g @ last attempted)]))"
proof (induction js arbitrary: w)
  case Nil
  then show ?case by auto
next
  case (Cons j js)
  obtain t p d where j: "j = (t, p, d)" by (cases j) auto
  show ?case
  proof (cases "can_open (fs w) (outputDir g @ p)")
    case False
    from Cons.prems generatePage_not_opened [OF False, of t d]
    have "err \<noteq> None" "locked w' = locked w" "cb w' = progressFunc g p (cb w)"
         "trace w' = trace w @ [ProgressCalled p, OpenAttempted (outputDir g @ p)]"
      by (auto simp: j)
    then show ?thesis
      by (intro exI [of _ "[p]"]) (auto simp: j)
  next
    case True
    note opened = generatePage_opened [OF True, of t d]
    let ?w1 = "w\<lparr>fs := write_file (fs w) (outputDir g @ p) (fst (t d)),
                   cb := progressFunc g p (cb w),
                   trace := trace w @ full_block (outputDir g) p\<rparr>"
    show ?thesis
    proof (cases "snd (t d)")
      case (Some e)
      from Cons.prems have "(snd (t d), ?w1) = (err, w')"
        unfolding j generatePages.simps opened by (simp add: Some)
      then have "err = Some e" "w' = ?w1"
        by (simp_all add: Some)
      then show ?thesis
        by (intro exI [of _ "[p]"]) (auto simp: j)
    next
      case None
      with Cons.prems opened have rest: "generatePages g js ?w1 = (err, w')"
        by (simp add: j)
      from Cons.IH [OF rest] obtain att where att:
        "prefix att (map job_path js)" "err = None \<longrightarrow> att = map job_path js"
        "locked w' = locked ?w1"
        "cb w' = fold (progressFunc g) att (cb ?w1)"
        "trace w' = trace ?w1 @ concat (map (full_block (outputDir g)) att) \<or>
         (err \<noteq> None \<and> att \<noteq> [] \<and>
          trace w' = trace ?w1 @ concat (map (full_block (outputDir g)) (butlast att))
                     @ [ProgressCalled (last att), OpenAttempted (outputDir g @ last att)])"
        by blast
      show ?thesis
        using att by (intro exI [of _ "p # att"]) (auto simp: j)
    qed
  qed
qed


lemma same_files_MkdirAll:
  "same_files w w2 \<Longrightarrow>
   fst (MkdirAll p w2) = fst (MkdirAll p w) \<and> same_files (snd (MkdirAll p w)) (snd (MkdirAll p w2))"
  by (auto simp: same_files_def MkdirAll_def)





lemma prepareOutputDir_keeps:
  "prepareOutputDir g w = (e, w1) \<Longrightarrow> trace w1 = trace w \<and> cb w1 = cb w \<and> locked w1 = locked w"
  by (auto simp: prepareOutputDir_def RemoveAll_def CopyTree_def MkdirAll_def Mkdir_def
           split: prod.splits option.splits node.splits if_splits)

lemma phases_pages:
  "generatePages g (all_jobs slug g order) w1 =
     (case generateIndex g w1 of
        (Some err, w2) \<Rightarrow> (Some err, w2)
      | (None, w2) \<Rightarrow>
     (case generateTags slug g order w2 of
        (Some err, w3) \<Rightarrow> (Some err, w3)
      | (None, w3) \<Rightarrow> generatePosts slug g w3))"
proof -
  have "all_jobs slug g order = [index_job g] @ tag_jobs slug g order @ map (post_job slug g) (posts g)"
    by (simp add: all_jobs_def)
  then show ?thesis
    by (simp only: generatePages_append generateIndex_pages generateTags_def generateTags_loop_pages
          generatePosts_def generatePosts_loop_pages)
qed

lemma Generate_after_prepare:
  assumes "prepareOutputDir g w = (None, w1)"
  shows "snd (Generate slug g order w) = snd (generatePages g (all_jobs slug g order) w1) \<and>
         (fst (Generate slug g order w) = None \<longleftrightarrow> fst (generatePages g (all_jobs slug g order) w1) = None)"
  by (simp add: Generate_def assms phases_pages split: prod.splits option.splits)

lemma Generate_prepare_failed:
  assumes "prepareOutputDir g w = (Some e, w1)"
  shows "Generate slug g order w = (Some (''failed to prepare output directory: '' @ e), w1)"
  by (simp add: Generate_def assms)

lemma Generate_events:
  assumes "Generate slug g order w = (err, w')"
  shows "\<exists>attempted. prefix attempted (pages_of slug g order) \<and>
      (err = None \<longrightarrow> attempted = pages_of slug g order) \<and>
      cb w' = fold (progressFunc g) attempted (cb w) \<and>
      (trace w' = trace w @ concat (map (full_block (outputDir g)) attempted) \<or>
       (err \<noteq> None \<and> attempted \<noteq> [] \<and>
        trace w' = trace w @ concat (map (full_block (outputDir g)) (butlast attempted))
                     @ [ProgressCalled (last attempted), OpenAttempted (outputDir g @ last attempted)]))"
proof (cases "prepareOutputDir g w")
  case (Pair pe w1)
  note keeps = prepareOutputDir_keeps [OF Pair]
  show ?thesis
  proof (cases pe)
    case (Some e)
    with Pair assms Generate_prepare_failed [of g w e w1 slug order]
    have "err \<noteq> None" "w' = w1" by auto
    with keeps show ?thesis
      by (intro exI [of _ "[]"]) auto
  next
    case None
    with Pair have p: "prepareOutputDir g w = (None, w1)" by simp
    from Generate_after_prepare [OF p, of slug order] assms
    have w': "w' = snd (generatePages g (all_jobs slug g order) w1)"
      and e: "err = None \<longleftrightarrow> fst (generatePages g (all_jobs slug g order) w1) = None"
      by simp_all
    obtain e2 where r: "generatePages g (all_jobs slug g order) w1 = (e2, w')"
      using w' by (cases "generatePages g (all_jobs slug g order) w1") simp
    with e have e2: "err = None \<longleftrightarrow> e2 = None" by simp
    from generatePages_events [OF r] obtain att where
      "prefix att (pages_of slug g order)" "e2 = None \<longrightarrow> att = pages_of slug g order"
      "cb w' = fold (progressFunc g) att (cb w1)"
      "trace w' = trace w1 @ concat (map (full_block (outputDir g)) att) \<or>
       (e2 \<noteq> None \<and> att \<noteq> [] \<and>
        trace w' = trace w1 @ concat (map (full_block (outputDir g)) (butlast att))
                     @ [ProgressCalled (last att), OpenAttempted (outputDir g @ last att)])"
      unfolding all_jobs_paths by blast
    with e2 keeps show ?thesis
      by (intro exI [of _ att]) simp
  qed
qed







subsection \<open>The four phases of Generate\<close>

text \<open>The definitions unfolded to run the generator on the small site.\<close>

lemmas run_defs = Generate_def prepareOutputDir_def RemoveAll_def stuck_def CopyTree_def MkdirAll_def
  Mkdir_def generateIndex_def generatePage_def OpenFile_def Execute_def generateTags_def
  generatePosts_def post_path_def tag_path_def index_path_def ignored_names_def is_file_def
  content_of_def overwrite_def Let_def

lemmas demo_defs = demo_generator_def demo_site_def demo_fs_def demo_template_def failing_template_def
  demo_slug_def first_post_def second_post_def record_path_def bare_site_def demo_order_def

lemma pair_of_fst: "fst r = a \<Longrightarrow> r = (a, snd r)"
  by (cases r) simp

text \<open>
  Claim C1. \<open>Generate\<close> runs the preparation of the output directory, the
  index, the tag pages and the post pages in this order. The first phase that fails
  ends the run: the result is that phase's error behind the message that names the
  phase, and the world is the one that phase left. When all four succeed the result
  is success. In a successful run the callback has received the paths of the index,
  the tag pages and the post pages, in this order.
\<close>

theorem Generate_phases_in_order:
  "(\<forall>e w1. prepareOutputDir g w = (Some e, w1) \<longrightarrow>
      Generate slug g order w = (Some (''failed to prepare output directory: '' @ e), w1)) \<and>
   (\<forall>w1 e w2. prepareOutputDir g w = (None, w1) \<and> generateIndex g w1 = (Some e, w2) \<longrightarrow>
      Generate slug g order w = (Some (''failed to generate index: '' @ e), w2)) \<and>
   (\<forall>w1 w2 e w3. prepareOutputDir g w = (None, w1) \<and> generateIndex g w1 = (None, w2) \<and>
      generateTags slug g order w2 = (Some e, w3) \<longrightarrow>
      Generate slug g order w = (Some (''failed to generate tags: '' @ e), w3)) \<and>
   (\<forall>w1 w2 w3 e w4. prepareOutputDir g w = (None, w1) \<and> generateIndex g w1 = (None, w2) \<and>
      generateTags slug g order w2 = (None, w3) \<and> generatePosts slug g w3 = (Some e, w4) \<longrightarrow>
      Generate slug g order w = (Some (''failed to generate posts: '' @ e), w4)) \<and>
   (\<forall>w1 w2 w3 w4. prepareOutputDir g w = (None, w1) \<and> generateIndex g w1 = (None, w2) \<and>
      generateTags slug g order w2 = (None, w3) \<and> generatePosts slug g w3 = (None, w4) \<longrightarrow>
      Generate slug g order w = (None, w4)) \<and>
   (\<forall>w'. Generate slug g order w = (None, w') \<longrightarrow>
      cb w' = fold (progressFunc g) (pages_of slug g order) (cb w) \<and>
      trace w' = trace w @ concat (map (full_block (outputDir g)) (pages_of slug g order)))"
proof -
  have order: "\<forall>w'. Generate slug g order w = (None, w') \<longrightarrow>
      cb w' = fold (progressFunc g) (pages_of slug g order) (cb w) \<and>
      trace w' = trace w @ concat (map (full_block (outputDir g)) (pages_of slug g order))"
  proof (intro allI impI)
    fix w'
    assume "Generate slug g order w = (None, w')"
    from Generate_events [OF this] show
      "cb w' = fold (progressFunc g) (pages_of slug g order) (cb w) \<and>
       trace w' = trace w @ concat (map (full_block (outputDir g)) (pages_of slug g order))"
      by auto
  qed
  show ?thesis
    by (intro conjI order) (simp_all add: Generate_def)
qed

theorem Generate_phases_in_order_witness:
  "fst (prepareOutputDir demo_generator bare_site) = Some ''no such file or directory'' \<and>
   fst (Generate demo_slug demo_generator demo_order bare_site)
     = Some ''failed to prepare output directory: no such file or directory'' \<and>
   fst (Generate demo_slug (demo_generator\<lparr>indexTemplate := failing_template\<rparr>) demo_order demo_site)
     = Some ''failed to generate index: template: execution failed'' \<and>
   fst (Generate demo_slug (demo_generator\<lparr>tagTemplate := failing_template\<rparr>) demo_order demo_site)
     = Some ''failed to generate tags: template: execution failed'' \<and>
   fst (Generate demo_slug (demo_generator\<lparr>postTemplate := failing_template\<rparr>) demo_order demo_site)
     = Some ''failed to generate posts: template: execution failed'' \<and>
   fst (Generate demo_slug demo_generator demo_order demo_site) = None \<and>
   cb (snd (Generate demo_slug demo_generator demo_order demo_site))
     = [[''index.html''], [''tags'', ''go.html''], [''tags'', ''web.html''],
        [''hello-world.html''], [''hello-world.html'']]"
proof -
  let ?g = demo_generator
  let ?gi = "demo_generator\<lparr>indexTemplate := failing_template\<rparr>"
  let ?gt = "demo_generator\<lparr>tagTemplate := failing_template\<rparr>"
  let ?gp = "demo_generator\<lparr>postTemplate := failing_template\<rparr>"
  have a0: "fst (prepareOutputDir ?g bare_site) = Some ''no such file or directory''"
    by (simp add: run_defs demo_defs)
  have a: "fst (Generate demo_slug ?g demo_order bare_site)
     = Some ''failed to prepare output directory: no such file or directory''"
    using Generate_phases_in_order [of ?g bare_site demo_slug demo_order, THEN conjunct1]
      pair_of_fst [OF a0] by fastforce
  let ?w1 = "snd (prepareOutputDir ?gi demo_site)"
  have b1: "prepareOutputDir ?gi demo_site = (None, ?w1)"
    by (rule pair_of_fst) (simp add: run_defs demo_defs)
  have b2: "generateIndex ?gi ?w1 = (Some ''template: execution failed'', snd (generateIndex ?gi ?w1))"
    by (rule pair_of_fst) (simp add: run_defs demo_defs)
  have b: "fst (Generate demo_slug ?gi demo_order demo_site)
     = Some ''failed to generate index: template: execution failed''"
    using Generate_phases_in_order [of ?gi demo_site demo_slug demo_order, THEN conjunct2, THEN conjunct1]
      b1 b2 by fastforce
  let ?v1 = "snd (prepareOutputDir ?gt demo_site)"
  let ?v2 = "snd (generateIndex ?gt ?v1)"
  have c1: "prepareOutputDir ?gt demo_site = (None, ?v1)"
    by (rule pair_of_fst) (simp add: run_defs demo_defs)
  have c2: "generateIndex ?gt ?v1 = (None, ?v2)"
    by (rule pair_of_fst) (simp add: run_defs demo_defs)
  have c3: "generateTags demo_slug ?gt demo_order ?v2
      = (Some ''template: execution failed'', snd (generateTags demo_slug ?gt demo_order ?v2))"
    by (rule pair_of_fst) (simp add: run_defs demo_defs)
  have c: "fst (Generate demo_slug ?gt demo_order demo_site)
     = Some ''failed to generate tags: template: execution failed''"
    using Generate_phases_in_order [of ?gt demo_site demo_slug demo_order,
        THEN conjunct2, THEN conjunct2, THEN conjunct1]
      c1 c2 c3 by fastforce
  let ?u1 = "snd (prepareOutputDir ?gp demo_site)"
  let ?u2 = "snd (generateIndex ?gp ?u1)"
  let ?u3 = "snd (generateTags demo_slug ?gp demo_order ?u2)"
  have d1: "prepareOutputDir ?gp demo_site = (None, ?u1)"
    by (rule pair_of_fst) (simp add: run_defs demo_defs)
  have d2: "generateIndex ?gp ?u1 = (None, ?u2)"
    by (rule pair_of_fst) (simp add: run_defs demo_defs)
  have d3: "generateTags demo_slug ?gp demo_order ?u2 = (None, ?u3)"
    by (rule pair_of_fst) (simp add: run_defs demo_defs)
  have d4: "generatePosts demo_slug ?gp ?u3
      = (Some ''template: execution failed'', snd (generatePosts demo_slug ?gp ?u3))"
    by (rule pair_of_fst) (simp add: run_defs demo_defs)
  have d: "fst (Generate demo_slug ?gp demo_order demo_site)
     = Some ''failed to generate posts: template: execution failed''"
    using Generate_phases_in_order [of ?gp demo_site demo_slug demo_order,
        THEN conjunct2, THEN conjunct2, THEN conjunct2, THEN conjunct1]
      d1 d2 d3 d4 by fastforce
  let ?t1 = "snd (prepareOutputDir ?g demo_site)"
  let ?t2 = "snd (generateIndex ?g ?t1)"
  let ?t3 = "snd (generateTags demo_slug ?g demo_order ?t2)"
  let ?t4 = "snd (generatePosts demo_slug ?g ?t3)"
  have e1: "prepareOutputDir ?g demo_site = (None, ?t1)"
    by (rule pair_of_fst) (simp add: run_defs demo_defs)
  have e2: "generateIndex ?g ?t1 = (None, ?t2)"
    by (rule pair_of_fst) (simp add: run_defs demo_defs)
  have e3: "generateTags demo_slug ?g demo_order ?t2 = (None, ?t3)"
    by (rule pair_of_fst) (simp add: run_defs demo_defs)
  have e4: "generatePosts demo_slug ?g ?t3 = (None, ?t4)"
    by (rule pair_of_fst) (simp add: run_defs demo_defs)
  have e: "Generate demo_slug ?g demo_order demo_site = (None, ?t4)"
    using Generate_phases_in_order [of ?g demo_site demo_slug demo_order,
        THEN conjunct2, THEN conjunct2, THEN conjunct2, THEN conjunct2, THEN conjunct1]
      e1 e2 e3 e4 by blast
  have f: "cb ?t4 = fold (progressFunc ?g) (pages_of demo_slug ?g demo_order) (cb demo_site)"
    using Generate_phases_in_order [of ?g demo_site demo_slug demo_order,
        THEN conjunct2, THEN conjunct2, THEN conjunct2, THEN conjunct2, THEN conjunct2]
      e by blast
  have pages: "fold (progressFunc ?g) (pages_of demo_slug ?g demo_order) (cb demo_site)
     = [[''index.html''], [''tags'', ''go.html''], [''tags'', ''web.html''],
        [''hello-world.html''], [''hello-world.html'']]"
    by (simp add: pages_of_def run_defs demo_defs)
  from a0 a b c d e f pages show ?thesis
    by simp
qed

subsection \<open>The progress callback\<close>



subsection \<open>The constructor\<close>

lemma fold_update_lookup:
  "fold (\<lambda>t m. m(t \<mapsto> f t)) ts m0 T = (if T \<in> set ts then Some (f T) else m0 T)"
  by (induction ts arbitrary: m0) auto

lemma PostsByDate_all: "PostsByDate blog False False None = sort_key Published blog"
  by (simp add: PostsByDate_def)

lemma PostsByDate_tag:
  "PostsByDate blog False False (Some T)
     = filter (\<lambda>p. T \<in> set (PostTags p)) (PostsByDate blog False False None)"
  by (simp add: PostsByDate_def filter_sort)

lemma set_Tags: "set (Tags blog False) = (\<Union>p\<in>set blog. set (PostTags p))"
  by (simp add: Tags_def)

lemma NewStaticBlogGenerator_fields:
  assumes "NewStaticBlogGenerator parse blog tdir odir pf w = Inr g"
  shows "posts g = PostsByDate blog False False None"
    and "postsByTag g = fold (\<lambda>tag m. m(tag \<mapsto> PostsByDate blog False False (Some tag)))
                             (Tags blog False) Map.empty"
    and "templatesDir g = tdir" and "outputDir g = odir" and "progressFunc g = pf"
  using assms
  by (auto simp: NewStaticBlogGenerator_def split: if_splits sum.splits)

text \<open>
  Claim C6. In a generator that \<open>NewStaticBlogGenerator\<close> returns, the tags of the
  mapping are the tags of the snapshotted posts, and the bucket of a tag \<open>T\<close> is
  the snapshotted post list filtered to the posts that carry \<open>T\<close>: every post
  of the bucket carries \<open>T\<close>, every snapshotted post that carries \<open>T\<close> is in
  the bucket, and the bucket keeps the order of the full list. The two queries of the
  blog model are the ones modelled from the specification.
\<close>

theorem tag_buckets_filtered:
  assumes "NewStaticBlogGenerator parse blog tdir odir pf w = Inr g"
  shows "posts g = sort_key Published blog \<and>
         dom (postsByTag g) = (\<Union>p\<in>set (posts g). set (PostTags p)) \<and>
         (\<forall>T bucket. postsByTag g T = Some bucket \<longrightarrow>
            bucket = filter (\<lambda>p. T \<in> set (PostTags p)) (posts g) \<and>
            (\<forall>p\<in>set bucket. T \<in> set (PostTags p)) \<and>
            (\<forall>p\<in>set (posts g). T \<in> set (PostTags p) \<longrightarrow> p \<in> set bucket))"
proof -
  note f = NewStaticBlogGenerator_fields [OF assms]
  have p: "posts g = sort_key Published blog"
    by (simp add: f(1) PostsByDate_all)
  have lookup: "postsByTag g T =
      (if T \<in> set (Tags blog False) then Some (filter (\<lambda>p. T \<in> set (PostTags p)) (posts g)) else None)" for T
    by (simp add: f(1,2) fold_update_lookup PostsByDate_tag)
  have d: "dom (postsByTag g) = (\<Union>p\<in>set (posts g). set (PostTags p))"
    by (auto simp: dom_def lookup set_Tags p)
  have b: "\<forall>T bucket. postsByTag g T = Some bucket \<longrightarrow>
            bucket = filter (\<lambda>p. T \<in> set (PostTags p)) (posts g) \<and>
            (\<forall>p\<in>set bucket. T \<in> set (PostTags p)) \<and>
            (\<forall>p\<in>set (posts g). T \<in> set (PostTags p) \<longrightarrow> p \<in> set bucket)"
    by (auto simp: lookup split: if_splits)
  from p d b show ?thesis by blast
qed

lemmas new_defs = NewStaticBlogGenerator_def createTemplate_def ReadFile_def demo_parse_def
  PostsByDate_def Tags_def

theorem tag_buckets_filtered_witness:
  "\<exists>g. NewStaticBlogGenerator demo_parse demo_blog [''tpl''] [''out''] record_path demo_site = Inr g \<and>
       posts g = [first_post, second_post] \<and>
       postsByTag g ''go'' = Some [first_post, second_post] \<and>
       postsByTag g ''web'' = Some [second_post] \<and>
       [first_post, second_post] = filter (\<lambda>p. ''go'' \<in> set (PostTags p)) (posts g) \<and>
       [second_post] = filter (\<lambda>p. ''web'' \<in> set (PostTags p)) (posts g)"
proof -
  obtain g where g: "NewStaticBlogGenerator demo_parse demo_blog [''tpl''] [''out''] record_path demo_site = Inr g"
    by (simp add: new_defs demo_defs)
  note t = tag_buckets_filtered [OF g]
  have p: "posts g = [first_post, second_post]"
    using t by (simp add: demo_blog_def first_post_def second_post_def)
  have go: "postsByTag g ''go'' = Some [first_post, second_post]"
    using g by (auto simp: new_defs demo_defs demo_blog_def)
  have web: "postsByTag g ''web'' = Some [second_post]"
    using g by (auto simp: new_defs demo_defs demo_blog_def)
  from t go have 1: "[first_post, second_post] = filter (\<lambda>p. ''go'' \<in> set (PostTags p)) (posts g)"
    by blast
  from t web have 2: "[second_post] = filter (\<lambda>p. ''web'' \<in> set (PostTags p)) (posts g)"
    by blast
  from g p go web 1 2 show ?thesis by blast
qed

lemma createTemplate_fails:
  "isl (createTemplate parse tdir name w) \<longleftrightarrow>
     (\<not> is_file (fs w (tdir @ [''layout.tmpl''])) \<or> \<not> is_file (fs w (tdir @ [name])) \<or>
      isl (parse [(''layout.tmpl'', content_of (fs w (tdir @ [''layout.tmpl'']))),
                  (name, content_of (fs w (tdir @ [name])))]))"
  by (auto simp: createTemplate_def ReadFile_def is_file_def content_of_def
           split: option.splits node.splits sum.splits)

lemma createTemplate_reads:
  assumes "fs w2 (tdir @ [''layout.tmpl'']) = fs w (tdir @ [''layout.tmpl''])"
    and "fs w2 (tdir @ [name]) = fs w (tdir @ [name])"
  shows "createTemplate parse tdir name w2 = createTemplate parse tdir name w"
  by (simp add: createTemplate_def ReadFile_def assms cong: sum.case_cong)

lemma NewStaticBlogGenerator_template_failed:
  assumes "name \<in> set [''index.tmpl'', ''post.tmpl'', ''tag.tmpl'']"
    and "isl (createTemplate parse tdir name w)"
  shows "isl (NewStaticBlogGenerator parse blog tdir odir pf w)"
  using assms
  by (auto simp: NewStaticBlogGenerator_def split: sum.splits)

text \<open>
  Claim C9. The constructor returns an error (the Go pair of the zero generator and
  the error is the left injection) when the templates directory does not exist, and
  when one of the three templates cannot be made: the layout or the template file is
  not a readable file, or the two do not parse. The constructor takes the world and
  returns no world: it changes nothing. Its result depends on the five template paths
  only, and whether it fails does not depend on the output directory it is given.
\<close>

theorem construction_fails_before_output:
  "(fs w tdir = None \<longrightarrow>
      NewStaticBlogGenerator parse blog tdir odir pf w
        = Inl (''templates directory not found: '' @ Join tdir ''/'')) \<and>
   (\<forall>name\<in>set [''index.tmpl'', ''post.tmpl'', ''tag.tmpl''].
      \<not> is_file (fs w (tdir @ [''layout.tmpl''])) \<or> \<not> is_file (fs w (tdir @ [name])) \<or>
      isl (parse [(''layout.tmpl'', content_of (fs w (tdir @ [''layout.tmpl'']))),
                  (name, content_of (fs w (tdir @ [name])))])
      \<longrightarrow> isl (NewStaticBlogGenerator parse blog tdir odir pf w)) \<and>
   (\<forall>w2 :: 'c world. (\<forall>p\<in>set (template_paths tdir). fs w2 p = fs w p) \<longrightarrow>
      NewStaticBlogGenerator parse blog tdir odir pf w2 = NewStaticBlogGenerator parse blog tdir odir pf w) \<and>
   (\<forall>odir2. isl (NewStaticBlogGenerator parse blog tdir odir2 pf w)
           = isl (NewStaticBlogGenerator parse blog tdir odir pf w))"
proof -
  have missing: "fs w tdir = None \<longrightarrow>
      NewStaticBlogGenerator parse blog tdir odir pf w
        = Inl (''templates directory not found: '' @ Join tdir ''/'')"
    by (simp add: NewStaticBlogGenerator_def)
  have template: "\<forall>name\<in>set [''index.tmpl'', ''post.tmpl'', ''tag.tmpl''].
      \<not> is_file (fs w (tdir @ [''layout.tmpl''])) \<or> \<not> is_file (fs w (tdir @ [name])) \<or>
      isl (parse [(''layout.tmpl'', content_of (fs w (tdir @ [''layout.tmpl'']))),
                  (name, content_of (fs w (tdir @ [name])))])
      \<longrightarrow> isl (NewStaticBlogGenerator parse blog tdir odir pf w)"
    using NewStaticBlogGenerator_template_failed [of _ parse tdir w blog odir pf]
    unfolding createTemplate_fails by blast
  have reads: "\<forall>w2 :: 'c world. (\<forall>p\<in>set (template_paths tdir). fs w2 p = fs w p) \<longrightarrow>
      NewStaticBlogGenerator parse blog tdir odir pf w2 = NewStaticBlogGenerator parse blog tdir odir pf w"
  proof (intro allI impI)
    fix w2 :: "'c world"
    assume a: "\<forall>p\<in>set (template_paths tdir). fs w2 p = fs w p"
    then have "fs w2 tdir = fs w tdir"
      "\<And>name. name \<in> set [''index.tmpl'', ''post.tmpl'', ''tag.tmpl''] \<Longrightarrow>
          createTemplate parse tdir name w2 = createTemplate parse tdir name w"
      by (auto simp: template_paths_def intro!: createTemplate_reads)
    then show "NewStaticBlogGenerator parse blog tdir odir pf w2
        = NewStaticBlogGenerator parse blog tdir odir pf w"
      by (simp add: NewStaticBlogGenerator_def cong: sum.case_cong)
  qed
  have out: "\<forall>odir2. isl (NewStaticBlogGenerator parse blog tdir odir2 pf w)
           = isl (NewStaticBlogGenerator parse blog tdir odir pf w)"
    by (simp add: NewStaticBlogGenerator_def split: sum.splits)
  from missing template reads out show ?thesis by blast
qed

theorem construction_fails_before_output_witness:
  "fs bare_site [''tpl''] = None \<and>
   NewStaticBlogGenerator demo_parse demo_blog [''tpl''] [''out''] record_path bare_site
     = Inl ''templates directory not found: tpl'' \<and>
   \<not> is_file (fs partial_site ([''tpl''] @ [''post.tmpl''])) \<and>
   isl (NewStaticBlogGenerator demo_parse demo_blog [''tpl''] [''out''] record_path partial_site) \<and>
   isl (demo_parse [(''layout.tmpl'', content_of (fs broken_site ([''tpl''] @ [''layout.tmpl'']))),
                    (''tag.tmpl'', content_of (fs broken_site ([''tpl''] @ [''tag.tmpl''])))]) \<and>
   isl (NewStaticBlogGenerator demo_parse demo_blog [''tpl''] [''out''] record_path broken_site) \<and>
   list_all (\<lambda>p. fs stale_site p = fs demo_site p) (template_paths [''tpl'']) \<and>
   NewStaticBlogGenerator demo_parse demo_blog [''tpl''] [''out''] record_path stale_site
     = NewStaticBlogGenerator demo_parse demo_blog [''tpl''] [''out''] record_path demo_site \<and>
   \<not> isl (NewStaticBlogGenerator demo_parse demo_blog [''tpl''] [''out''] record_path demo_site)"
proof -
  note t = construction_fails_before_output [of _ "[''tpl'']" demo_parse demo_blog "[''out'']" record_path]
  have a: "fs bare_site [''tpl''] = None"
    by (simp add: demo_defs)
  from t [of bare_site, THEN conjunct1] a
  have a': "NewStaticBlogGenerator demo_parse demo_blog [''tpl''] [''out''] record_path bare_site
     = Inl ''templates directory not found: tpl''"
    by simp
  have b: "\<not> is_file (fs partial_site ([''tpl''] @ [''post.tmpl'']))"
    by (simp add: partial_site_def demo_defs is_file_def)
  from t [of partial_site, THEN conjunct2, THEN conjunct1] b
  have b': "isl (NewStaticBlogGenerator demo_parse demo_blog [''tpl''] [''out''] record_path partial_site)"
    by simp
  have c: "isl (demo_parse [(''layout.tmpl'', content_of (fs broken_site ([''tpl''] @ [''layout.tmpl'']))),
                    (''tag.tmpl'', content_of (fs broken_site ([''tpl''] @ [''tag.tmpl''])))])"
    by (simp add: broken_site_def demo_defs demo_parse_def content_of_def)
  from t [of broken_site, THEN conjunct2, THEN conjunct1] c
  have c': "isl (NewStaticBlogGenerator demo_parse demo_blog [''tpl''] [''out''] record_path broken_site)"
    by simp
  have d: "list_all (\<lambda>p. fs stale_site p = fs demo_site p) (template_paths [''tpl''])"
    by (simp add: template_paths_def stale_site_def demo_defs)
  from t [of demo_site, THEN conjunct2, THEN conjunct2, THEN conjunct1] d [unfolded list_all_iff]
  have d': "NewStaticBlogGenerator demo_parse demo_blog [''tpl''] [''out''] record_path stale_site
     = NewStaticBlogGenerator demo_parse demo_blog [''tpl''] [''out''] record_path demo_site"
    by blast
  have e: "\<not> isl (NewStaticBlogGenerator demo_parse demo_blog [''tpl''] [''out''] record_path demo_site)"
    by (simp add: new_defs demo_defs)
  from a a' b b' c c' d d' e show ?thesis by blast
qed

subsection \<open>Two pages at one path, and the error of the removal\<close>

text \<open>
  Claim C3, on the code. The titles of the two posts of the small site have the same
  slug, so their pages go to the same path. The run succeeds, the page of the second
  post is written last and is five bytes long, and the file holds those five bytes
  followed by what was left of the longer page of the first post: the file is opened
  without truncation.
\<close>

theorem colliding_posts_leave_residue:
  "post_path demo_slug first_post = post_path demo_slug second_post \<and>
   posts demo_generator = [first_post, second_post] \<and>
   fst (Generate demo_slug demo_generator demo_order demo_site) = None \<and>
   fst (postTemplate demo_generator (PostData second_post)) = ''Short'' \<and>
   fs (snd (Generate demo_slug demo_generator demo_order demo_site))
      (outputDir demo_generator @ post_path demo_slug second_post) = Some (File ''Shortger body'')"
  by (simp add: run_defs demo_defs)

text \<open>
  Claim C5, on the code. The output directory of an earlier run holds an entry the
  process may not remove. \<^verbatim>\<open>os.RemoveAll\<close> fails with that error;
  \<open>prepareOutputDir\<close> drops it, and what the caller of \<open>Generate\<close> gets is
  the error of the copy, which finds the directory still there.
\<close>

theorem removal_error_dropped:
  "fst (RemoveAll (outputDir demo_generator) stale_site) = Some ''permission denied'' \<and>
   fst (Generate demo_slug demo_generator demo_order stale_site)
     = Some ''failed to prepare output directory: already exists''"
  by (simp add: run_defs demo_defs stale_site_def)

subsection \<open>The files of a successful run\<close>

lemma write_jobs_Nil [simp]: "write_jobs out [] f = f"
  by (simp add: write_jobs_def)

lemma write_jobs_Cons [simp]:
  "write_jobs out (j # js) f = write_jobs out js (write_file f (out @ job_path j) (job_bytes j))"
  by (simp add: write_jobs_def)

lemma write_jobs_append [simp]:
  "write_jobs out (js @ ks) f = write_jobs out ks (write_jobs out js f)"
  by (simp add: write_jobs_def)

lemma generatePages_success:
  "generatePages g js w = (None, w') \<Longrightarrow>
   fs w' = write_jobs (outputDir g) js (fs w) \<and> locked w' = locked w \<and>
   list_all (\<lambda>j. job_error j = None) js"
proof (induction js arbitrary: w)
  case Nil
  then show ?case by simp
next
  case (Cons j js)
  obtain t p d where j: "j = (t, p, d)" by (cases j) auto
  obtain e w1 where p: "generatePage g t p d w = (e, w1)"
    by (cases "generatePage g t p d w")
  with Cons.prems have e: "e = None" and rest: "generatePages g js w1 = (None, w')"
    by (auto simp: j split: option.splits)
  from generatePage_success [OF p [unfolded e]] Cons.IH [OF rest] show ?case
    by (simp add: j job_bytes_def job_error_def)
qed

lemma write_jobs_other:
  "q \<notin> (\<lambda>j. out @ job_path j) ` set js \<Longrightarrow> write_jobs out js f q = f q"
  by (induction js arbitrary: f) (auto simp: write_file_def)




lemma Generate_success:
  assumes "Generate slug g order w = (None, w')"
  shows "\<exists>w1. prepareOutputDir g w = (None, w1) \<and>
           generatePages g (all_jobs slug g order) w1 = (None, w')"
proof (cases "prepareOutputDir g w")
  case (Pair e w1)
  show ?thesis
  proof (cases e)
    case (Some err)
    with Pair assms Generate_prepare_failed [of g w err w1 slug order] show ?thesis by simp
  next
    case None
    with Pair have p: "prepareOutputDir g w = (None, w1)" by simp
    from Generate_after_prepare [OF p, of slug order] assms
    have "generatePages g (all_jobs slug g order) w1 = (None, w')"
      by (simp add: prod_eq_iff)
    with p show ?thesis by blast
  qed
qed






lemma CopyTree_success:
  assumes "CopyTree src dst ign w = (None, w1)"
  shows "fs w src = Some Dir" and "fs w dst = None"
    and "\<not> list_ex (\<lambda>q. is_file (fs w q)) (prefixes dst)"
    and "fs w1 = (\<lambda>q. if strict_prefix dst q \<and> list_all (\<lambda>n. n \<notin> set ign) (drop (length dst) q)
                      then fs w (src @ drop (length dst) q)
                      else if prefix q dst then Some Dir else fs w q)"
    and "locked w1 = locked w"
  using assms
  by (auto simp: CopyTree_def MkdirAll_def split: option.splits node.splits if_splits)

lemma Mkdir_success:
  assumes "Mkdir p w = (None, w1)"
  shows "fs w p = None" and "fs w (butlast p) = Some Dir" and "fs w1 = (fs w)(p \<mapsto> Dir)"
    and "locked w1 = locked w"
  using assms by (auto simp: Mkdir_def split: if_splits)

lemma prepareOutputDir_success:
  assumes "prepareOutputDir g w = (None, w1)"
  shows "\<exists>wc. CopyTree (templatesDir g) (outputDir g) ignored_names (snd (RemoveAll (outputDir g) w)) = (None, wc)
              \<and> Mkdir (outputDir g @ [''tags'']) wc = (None, w1)"
  using assms
  by (auto simp: prepareOutputDir_def split: prod.splits option.splits)








subsection \<open>Running the generator twice\<close>

lemma can_open_write_file:
  assumes "can_open f q"
  shows "can_open (write_file f q b) q' \<longleftrightarrow> q' = q \<or> can_open f q'"
proof (cases "q' = q")
  case True
  then show ?thesis by (simp add: can_open_def write_file_def)
next
  case False
  from assms have nd: "f q \<noteq> Some Dir"
    by (auto simp: can_open_def)
  have parent: "write_file f q b (butlast q') = Some Dir \<longleftrightarrow> f (butlast q') = Some Dir"
    using nd by (auto simp: write_file_def)
  from False have "write_file f q b q' = f q'"
    by (simp add: write_file_def)
  with False parent show ?thesis
    by (simp add: can_open_def split: option.splits node.splits)
qed

lemma generatePages_succeeds_iff:
  "fst (generatePages g js w) = None \<longleftrightarrow>
     list_all (\<lambda>j. can_open (fs w) (outputDir g @ job_path j) \<and> job_error j = None) js"
proof (induction js arbitrary: w)
  case Nil
  show ?case by simp
next
  case (Cons j js)
  obtain t p d where j: "j = (t, p, d)" by (cases j) auto
  show ?case
  proof (cases "can_open (fs w) (outputDir g @ p)")
    case False
    with generatePage_not_opened [OF False, of t d] show ?thesis
      by (simp add: j)
  next
    case True
    note opened = generatePage_opened [OF True, of t d]
    show ?thesis
    proof (cases "snd (t d)")
      case (Some e)
      with opened show ?thesis
        by (simp add: j job_error_def)
    next
      case None
      let ?w1 = "w\<lparr>fs := write_file (fs w) (outputDir g @ p) (fst (t d)),
                     cb := progressFunc g p (cb w),
                     trace := trace w @ full_block (outputDir g) p\<rparr>"
      have "fst (generatePages g (j # js) w) = fst (generatePages g js ?w1)"
        using opened None by (simp add: j)
      also have "\<dots> = None \<longleftrightarrow>
          list_all (\<lambda>j. can_open (fs ?w1) (outputDir g @ job_path j) \<and> job_error j = None) js"
        by (rule Cons.IH)
      also have "\<dots> \<longleftrightarrow>
          list_all (\<lambda>j. can_open (fs w) (outputDir g @ job_path j) \<and> job_error j = None) js"
        using True by (auto simp: list_all_iff can_open_write_file)
      finally show ?thesis
        using True None by (simp add: j job_error_def)
    qed
  qed
qed

lemma write_file_commute:
  "q1 \<noteq> q2 \<Longrightarrow>
   write_file (write_file f q1 b1) q2 b2 = write_file (write_file f q2 b2) q1 b1"
  by (auto simp: write_file_def fun_eq_iff)

lemma tag_jobs_map:
  assumes "\<forall>t\<in>set order. postsByTag g t \<noteq> None"
  shows "tag_jobs slug g order
     = map (\<lambda>t. (tagTemplate g, tag_path slug t, TagData t (the (postsByTag g t)))) order"
  using assms
  by (induction order) (auto simp: tag_jobs_def List.map_filter_simps)

lemma tag_path_inj: "tag_path slug t = tag_path slug t' \<longleftrightarrow> slug t = slug t'"
  by (simp add: tag_path_def)

lemma write_tag_jobs_any_order:
  assumes o1: "range_order g order1" and o2: "range_order g order2"
    and inj: "inj_on slug (dom (postsByTag g))"
  shows "write_jobs out (tag_jobs slug g order1) f = write_jobs out (tag_jobs slug g order2) f"
    and "set (tag_jobs slug g order1) = set (tag_jobs slug g order2)"
proof -
  let ?job = "\<lambda>t. (tagTemplate g, tag_path slug t, TagData t (the (postsByTag g t)))"
  from o1 o2 have keys: "\<forall>t\<in>set order1. postsByTag g t \<noteq> None" "\<forall>t\<in>set order2. postsByTag g t \<noteq> None"
    by (auto simp: range_order_def)
  note m = tag_jobs_map [OF keys(1), of slug] tag_jobs_map [OF keys(2), of slug]
  from o1 o2 have "mset order1 = mset order2"
    by (simp add: range_order_def set_eq_iff_mset_eq_distinct [symmetric])
  then have ms: "mset (tag_jobs slug g order1) = mset (tag_jobs slug g order2)"
    by (simp add: m)
  then show "set (tag_jobs slug g order1) = set (tag_jobs slug g order2)"
    by (rule mset_eq_setD)
  have commute: "write_file (write_file z (out @ job_path y) (job_bytes y)) (out @ job_path x) (job_bytes x)
        = write_file (write_file z (out @ job_path x) (job_bytes x)) (out @ job_path y) (job_bytes y)"
    if "x \<in> set (tag_jobs slug g order1)" "y \<in> set (tag_jobs slug g order1)" for x y z
  proof (cases "x = y")
    case True
    then show ?thesis by simp
  next
    case False
    from that obtain t t' where t: "x = ?job t" "y = ?job t'" "t \<in> set order1" "t' \<in> set order1"
      by (auto simp: m)
    with False have "t \<noteq> t'" by auto
    moreover from t o1 have "t \<in> dom (postsByTag g)" "t' \<in> dom (postsByTag g)"
      by (auto simp: range_order_def)
    ultimately have "slug t \<noteq> slug t'"
      using inj by (auto dest: inj_onD)
    then have "out @ job_path y \<noteq> out @ job_path x"
      by (simp add: t tag_path_inj)
    then show ?thesis
      by (rule write_file_commute)
  qed
  show "write_jobs out (tag_jobs slug g order1) f = write_jobs out (tag_jobs slug g order2) f"
    unfolding write_jobs_def
    by (rule fold_permuted_eq [where P = "\<lambda>_. True", OF ms]) (simp_all add: commute)
qed

lemma write_all_jobs_any_order:
  assumes "range_order g order1" and "range_order g order2"
    and "inj_on slug (dom (postsByTag g))"
  shows "write_jobs out (all_jobs slug g order1) f = write_jobs out (all_jobs slug g order2) f"
    and "set (all_jobs slug g order1) = set (all_jobs slug g order2)"
  using write_tag_jobs_any_order [OF assms]
  by (simp_all add: all_jobs_def)

lemma RemoveAll_unlocked:
  assumes "list_all (\<lambda>l. \<not> prefix p l) (locked w)"
  shows "fs (snd (RemoveAll p w)) = (\<lambda>q. if prefix p q then None else fs w q)"
    and "locked (snd (RemoveAll p w)) = locked w"
proof -
  have "\<not> stuck w q" if "prefix p q" for q
  proof
    assume "stuck w q"
    then obtain l where "l \<in> set (locked w)" "prefix q l"
      by (auto simp: stuck_def list_ex_iff)
    with that assms show False
      by (auto simp: list_all_iff dest: prefix_order.trans)
  qed
  then show "fs (snd (RemoveAll p w)) = (\<lambda>q. if prefix p q then None else fs w q)"
    by (auto simp: RemoveAll_def fun_eq_iff)
  show "locked (snd (RemoveAll p w)) = locked w"
    by (simp add: RemoveAll_def)
qed

lemma CopyTree_run:
  assumes "fs w src = Some Dir" and "fs w dst = None"
    and "\<not> list_ex (\<lambda>q. is_file (fs w q)) (prefixes dst)"
  shows "CopyTree src dst ign w =
     (None, w\<lparr>fs := (\<lambda>q. if strict_prefix dst q \<and> list_all (\<lambda>n. n \<notin> set ign) (drop (length dst) q)
                          then fs w (src @ drop (length dst) q)
                          else if prefix q dst then Some Dir else fs w q)\<rparr>)"
  using assms by (simp add: CopyTree_def MkdirAll_def cong: if_cong)

lemma Mkdir_run:
  assumes "fs w p = None" and "fs w (butlast p) = Some Dir"
  shows "Mkdir p w = (None, w\<lparr>fs := (fs w)(p \<mapsto> Dir)\<rparr>)"
  using assms by (simp add: Mkdir_def)

lemma prefix_of_append_apart:
  assumes "\<not> prefix a b" "\<not> prefix b a"
  shows "\<not> prefix b (a @ r)" and "\<not> prefix (a @ r) b"
  using assms by (auto simp: prefix_append dest: append_prefixD)

lemma prepareOutputDir_again:
  assumes apart: "\<not> prefix (templatesDir g) (outputDir g)" "\<not> prefix (outputDir g) (templatesDir g)"
    and free: "list_all (\<lambda>l. \<not> prefix (outputDir g) l) (locked w)"
    and p: "prepareOutputDir g w = (None, wp)"
    and l1: "locked w1 = locked w"
    and same: "\<forall>q. \<not> prefix (outputDir g) q \<longrightarrow> fs w1 q = fs wp q"
  shows "\<exists>wp'. prepareOutputDir g w1 = (None, wp') \<and> fs wp' = fs wp \<and> locked wp' = locked wp"
proof -
  let ?out = "outputDir g" and ?tpl = "templatesDir g"
  let ?wr = "snd (RemoveAll ?out w)" and ?wr1 = "snd (RemoveAll ?out w1)"
  from prepareOutputDir_success [OF p] obtain wc where
    c: "CopyTree ?tpl ?out ignored_names ?wr = (None, wc)" and
    m: "Mkdir (?out @ [''tags'']) wc = (None, wp)"
    by blast
  note cs = CopyTree_success [OF c] and ms = Mkdir_success [OF m]
  note fr = RemoveAll_unlocked [OF free]
  from free l1 have free1: "list_all (\<lambda>l. \<not> prefix ?out l) (locked w1)" by simp
  note fr1 = RemoveAll_unlocked [OF free1]
  have outside: "fs w1 q = (if prefix q ?out then Some Dir else fs w q)" if "\<not> prefix ?out q" for q
  proof -
    from that have "q \<noteq> ?out @ [''tags'']" "\<not> strict_prefix ?out q"
      by (auto simp: strict_prefix_def)
    with that same show ?thesis
      by (simp add: ms(3) cs(4) fr(1))
  qed
  have A: "fs ?wr1 q = (if prefix ?out q then None else if prefix q ?out then Some Dir else fs w q)" for q
    by (simp add: fr1(1) outside)
  have src: "fs ?wr1 ?tpl = Some Dir"
    using cs(1) apart by (simp add: A fr(1))
  have dst: "fs ?wr1 ?out = None"
    by (simp add: A)
  have anc: "\<not> list_ex (\<lambda>q. is_file (fs ?wr1 q)) (prefixes ?out)"
    by (auto simp: list_ex_iff A is_file_def)
  let ?wc1 = "?wr1\<lparr>fs := (\<lambda>q. if strict_prefix ?out q \<and> list_all (\<lambda>n. n \<notin> set ignored_names) (drop (length ?out) q)
                          then fs ?wr1 (?tpl @ drop (length ?out) q)
                          else if prefix q ?out then Some Dir else fs ?wr1 q)\<rparr>"
  have c1: "CopyTree ?tpl ?out ignored_names ?wr1 = (None, ?wc1)"
    by (rule CopyTree_run [OF src dst anc])
  have tree: "fs ?wr1 (?tpl @ r) = fs ?wr (?tpl @ r)" for r
    using prefix_of_append_apart [OF apart, of r] by (simp add: A fr(1))
  have rest: "fs ?wr1 q = fs ?wr q" if "\<not> prefix q ?out" for q
    using that by (simp add: A fr(1))
  have fc: "fs ?wc1 = fs wc"
    by (auto simp: cs(4) fun_eq_iff tree rest)
  let ?wp1 = "?wc1\<lparr>fs := (fs ?wc1)(?out @ [''tags''] \<mapsto> Dir)\<rparr>"
  have m1: "Mkdir (?out @ [''tags'']) ?wc1 = (None, ?wp1)"
    using ms(1,2) by (intro Mkdir_run) (simp_all only: fc)
  have "prepareOutputDir g w1 = (None, ?wp1)"
    by (simp add: prepareOutputDir_def case_prod_beta c1 m1)
  moreover have "fs ?wp1 = fs wp"
    using fc by (simp add: ms(3))
  moreover have "locked ?wp1 = locked wp"
    by (simp add: fr1(2) l1 ms(4) cs(5) fr(2))
  ultimately show ?thesis by blast
qed

text \<open>
  Claim C7, as amended. The templates directory and the output directory lie outside
  each other, the process may remove whatever is below the output directory, and
  distinct tags have distinct slugs. Then after a successful run a second run of the
  same generator succeeds as well, whatever the order in which each run ranges over
  the tags, and leaves the file system the first run left, byte for byte.
\<close>

theorem regeneration_identical:
  assumes apart: "\<not> prefix (templatesDir g) (outputDir g)" "\<not> prefix (outputDir g) (templatesDir g)"
    and free: "list_all (\<lambda>l. \<not> prefix (outputDir g) l) (locked w)"
    and slugs: "inj_on slug (dom (postsByTag g))"
    and o1: "range_order g order1" and o2: "range_order g order2"
    and run1: "Generate slug g order1 w = (None, w1)"
  shows "\<exists>w2. Generate slug g order2 w1 = (None, w2) \<and> fs w2 = fs w1"
proof -
  let ?out = "outputDir g"
  from Generate_success [OF run1] obtain wp where
    p: "prepareOutputDir g w = (None, wp)" and
    r: "generatePages g (all_jobs slug g order1) wp = (None, w1)"
    by blast
  note s1 = generatePages_success [OF r]
  note k = prepareOutputDir_keeps [OF p]
  have same: "\<forall>q. \<not> prefix ?out q \<longrightarrow> fs w1 q = fs wp q"
  proof (intro allI impI)
    fix q
    assume "\<not> prefix ?out q"
    then have "q \<notin> (\<lambda>j. ?out @ job_path j) ` set (all_jobs slug g order1)"
      by auto
    then show "fs w1 q = fs wp q"
      using s1 by (simp add: write_jobs_other)
  qed
  from s1 k have l1: "locked w1 = locked w" by simp
  from prepareOutputDir_again [OF apart free p l1 same] obtain wp' where
    p': "prepareOutputDir g w1 = (None, wp')" and f': "fs wp' = fs wp"
    by blast
  note any = write_all_jobs_any_order [OF o1 o2 slugs]
  from r have "fst (generatePages g (all_jobs slug g order1) wp) = None"
    by simp
  then have "list_all (\<lambda>j. can_open (fs wp) (?out @ job_path j) \<and> job_error j = None)
                (all_jobs slug g order1)"
    by (simp only: generatePages_succeeds_iff)
  then have "list_all (\<lambda>j. can_open (fs wp') (?out @ job_path j) \<and> job_error j = None)
                (all_jobs slug g order2)"
    by (simp add: list_all_iff any(2) f')
  then have ok: "fst (generatePages g (all_jobs slug g order2) wp') = None"
    by (simp only: generatePages_succeeds_iff)
  let ?w2 = "snd (generatePages g (all_jobs slug g order2) wp')"
  from ok have r2: "generatePages g (all_jobs slug g order2) wp' = (None, ?w2)"
    by (rule pair_of_fst)
  from generatePages_success [OF r2] have "fs ?w2 = write_jobs ?out (all_jobs slug g order2) (fs wp')"
    by simp
  also have "\<dots> = write_jobs ?out (all_jobs slug g order1) (fs wp)"
    by (simp only: f' any(1))
  also have "\<dots> = fs w1"
    using s1 by simp
  finally have eq: "fs ?w2 = fs w1" .
  from Generate_after_prepare [OF p', of slug order2] r2
  have "Generate slug g order2 w1 = (None, ?w2)"
    by (simp add: prod_eq_iff)
  with eq show ?thesis by blast
qed

lemma collide_reachable:
  "NewStaticBlogGenerator demo_parse [tagged_post] [''tpl''] [''out''] record_path demo_site = Inr collide_generator"
  by (simp add: new_defs demo_defs collide_generator_def tagged_post_def)

text \<open>
  Claim C7, as stated, fails: the two tags of the post have the same slug, so both
  tag pages go to \<open>tags/go-lang.html\<close>, and the page written last stays. The
  first run ranges over the tags in one order, the second in the other; both succeed
  and they leave different bytes in that file.
\<close>

theorem regeneration_differs_counterexample:
  "NewStaticBlogGenerator demo_parse [tagged_post] [''tpl''] [''out''] record_path demo_site
     = Inr collide_generator \<and>
   range_order collide_generator [''go lang'', ''go-lang''] \<and>
   range_order collide_generator [''go-lang'', ''go lang''] \<and>
   fst (Generate demo_slug collide_generator [''go lang'', ''go-lang''] demo_site) = None \<and>
   fst (Generate demo_slug collide_generator [''go-lang'', ''go lang'']
          (snd (Generate demo_slug collide_generator [''go lang'', ''go-lang''] demo_site))) = None \<and>
   fs (snd (Generate demo_slug collide_generator [''go lang'', ''go-lang''] demo_site))
      [''out'', ''tags'', ''go-lang.html''] = Some (File ''go-lang'') \<and>
   fs (snd (Generate demo_slug collide_generator [''go-lang'', ''go lang'']
          (snd (Generate demo_slug collide_generator [''go lang'', ''go-lang''] demo_site))))
      [''out'', ''tags'', ''go-lang.html''] = Some (File ''go lang'')"
proof -
  let ?w1 = "snd (Generate demo_slug collide_generator [''go lang'', ''go-lang''] demo_site)"
  have r: "range_order collide_generator [''go lang'', ''go-lang'']"
    "range_order collide_generator [''go-lang'', ''go lang'']"
    by (auto simp: range_order_def collide_generator_def)
  have a: "fst (Generate demo_slug collide_generator [''go lang'', ''go-lang''] demo_site) = None"
    by (simp add: run_defs demo_defs collide_generator_def tagged_post_def)
  have b: "fs ?w1 [''out'', ''tags'', ''go-lang.html''] = Some (File ''go-lang'')"
    by (simp add: run_defs demo_defs collide_generator_def tagged_post_def)
  have c: "fst (Generate demo_slug collide_generator [''go-lang'', ''go lang''] ?w1) = None"
    by (simp add: run_defs demo_defs collide_generator_def tagged_post_def)
  have d: "fs (snd (Generate demo_slug collide_generator [''go-lang'', ''go lang''] ?w1))
      [''out'', ''tags'', ''go-lang.html''] = Some (File ''go lang'')"
    by (simp add: run_defs demo_defs collide_generator_def tagged_post_def)
  from collide_reachable r a b c d show ?thesis
    by blast
qed

theorem regeneration_identical_witness:
  "\<not> prefix (templatesDir demo_generator) (outputDir demo_generator) \<and>
   \<not> prefix (outputDir demo_generator) (templatesDir demo_generator) \<and>
   list_all (\<lambda>l. \<not> prefix (outputDir demo_generator) l) (locked demo_site) \<and>
   inj_on demo_slug (dom (postsByTag demo_generator)) \<and>
   range_order demo_generator [''go'', ''web''] \<and>
   range_order demo_generator [''web'', ''go''] \<and>
   fst (Generate demo_slug demo_generator [''go'', ''web''] demo_site) = None \<and>
   (\<exists>w2. Generate demo_slug demo_generator [''web'', ''go'']
            (snd (Generate demo_slug demo_generator [''go'', ''web''] demo_site)) = (None, w2) \<and>
         fs w2 = fs (snd (Generate demo_slug demo_generator [''go'', ''web''] demo_site)))"
proof -
  have a: "\<not> prefix (templatesDir demo_generator) (outputDir demo_generator)"
    "\<not> prefix (outputDir demo_generator) (templatesDir demo_generator)"
    by (simp_all add: demo_generator_def)
  have l: "list_all (\<lambda>l. \<not> prefix (outputDir demo_generator) l) (locked demo_site)"
    by (simp add: demo_site_def)
  have i: "inj_on demo_slug (dom (postsByTag demo_generator))"
    by (simp add: demo_generator_def demo_slug_def)
  have r: "range_order demo_generator [''go'', ''web'']" "range_order demo_generator [''web'', ''go'']"
    by (auto simp: range_order_def demo_generator_def)
  have s: "fst (Generate demo_slug demo_generator [''go'', ''web''] demo_site) = None"
    by (simp add: run_defs demo_defs)
  from regeneration_identical [OF a l i r pair_of_fst [OF s]] a l i r s show ?thesis
    by blast
qed

end
